theory Spec2Isabelle
  imports Complex_Main "HOL-Library.Sublist" "HOL-Library.Product_Lexorder"
begin

section \<open>Batched beam search: \<^verbatim>\<open>allennlp/state_machines/beam_search.py\<close>\<close>

text \<open>
  A shallow embedding of the class \<^verbatim>\<open>BeamSearch\<close>. Python exceptions are values of
  type \<open>error\<close>; dictionaries are association lists in insertion order (the order in
  which \<^verbatim>\<open>items()\<close> iterates); the attributes of the engine that \<^verbatim>\<open>search\<close> mutates
  are threaded through the loop as explicit state. Scores are Python floats read by
  \<^verbatim>\<open>score[0].item()\<close>: finite numbers, the infinities and NaN.
\<close>

subsection \<open>Errors and Python's list primitives\<close>

datatype error = IndexError | Raised string

text \<open>\<^verbatim>\<open>xs[0]\<close>: raises IndexError on an empty sequence.\<close>

definition item0 :: "'a list \<Rightarrow> error + 'a" where
  "item0 xs = (case xs of [] \<Rightarrow> Inl IndexError | x # _ \<Rightarrow> Inr x)"

text \<open>\<^verbatim>\<open>xs[:k]\<close>: a negative bound counts from the end of the list.\<close>

definition py_take :: "int \<Rightarrow> 'a list \<Rightarrow> 'a list" where
  "py_take k xs = (if 0 \<le> k then take (nat k) xs else take (length xs - nat (- k)) xs)"

text \<open>\<^verbatim>\<open>xss[i].append(x)\<close>: a negative index counts from the end; out of range raises.\<close>

definition append_at :: "'a list list \<Rightarrow> int \<Rightarrow> 'a \<Rightarrow> error + 'a list list" where
  "append_at xss i x =
     (let n = int (length xss); j = (if i < 0 then n + i else i)
      in if 0 \<le> j \<and> j < n then Inr (xss[nat j := xss ! nat j @ [x]]) else Inl IndexError)"

subsection \<open>Python floats and \<^verbatim>\<open>list.sort\<close>\<close>

text \<open>
  A float as \<^verbatim>\<open>.item()\<close> returns it. Rounding plays no part here: the search only
  negates and compares scores.
\<close>

datatype pyfloat = NaN | NegInf | Finite real | PosInf

text \<open>The place of a float in the order of the floats; NaN has none and is put last.\<close>

fun ord_key :: "pyfloat \<Rightarrow> nat \<times> real" where
  "ord_key NegInf = (0, 0)"
| "ord_key (Finite x) = (1, x)"
| "ord_key PosInf = (2, 0)"
| "ord_key NaN = (3, 0)"

text \<open>Python's \<^verbatim>\<open><\<close> and \<^verbatim>\<open><=\<close> on floats: false whenever an operand is NaN.\<close>

definition flt :: "pyfloat \<Rightarrow> pyfloat \<Rightarrow> bool" where
  "flt a b = (a \<noteq> NaN \<and> b \<noteq> NaN \<and> ord_key a < ord_key b)"

definition fle :: "pyfloat \<Rightarrow> pyfloat \<Rightarrow> bool" where
  "fle a b = (a \<noteq> NaN \<and> b \<noteq> NaN \<and> ord_key a \<le> ord_key b)"

text \<open>Unary minus.\<close>

fun fneg :: "pyfloat \<Rightarrow> pyfloat" where
  "fneg NaN = NaN"
| "fneg NegInf = PosInf"
| "fneg (Finite x) = Finite (- x)"
| "fneg PosInf = NegInf"

text \<open>
  \<^verbatim>\<open>ps.sort(key=lambda x: x[0])\<close> on a list of (float, item) pairs. When no key is
  NaN, \<^verbatim>\<open><\<close> orders the keys totally and Python guarantees the stable sort, which
  is \<^const>\<open>sort_key\<close>. With a NaN among the keys the comparisons are inconsistent
  and Python specifies no result: the result is what the parameter \<open>with_nan\<close>,
  standing for the interpreter's sorting routine on such a list, returns.
\<close>

definition list_sort ::
  "((pyfloat \<times> 'a) list \<Rightarrow> (pyfloat \<times> 'a) list) \<Rightarrow> (pyfloat \<times> 'a) list \<Rightarrow> (pyfloat \<times> 'a) list" where
  "list_sort with_nan ps =
     (if list_ex (\<lambda>p. fst p = NaN) ps then with_nan ps
      else sort_key (\<lambda>p. ord_key (fst p)) ps)"

subsection \<open>\<^verbatim>\<open>defaultdict(list)\<close> as an association list in insertion order\<close>

text \<open>\<^verbatim>\<open>d[k].append(v)\<close>: a missing key is created, at the end, with the list \<^verbatim>\<open>[v]\<close>.\<close>

fun dd_append :: "('k \<times> 'v list) list \<Rightarrow> 'k \<Rightarrow> 'v \<Rightarrow> ('k \<times> 'v list) list" where
  "dd_append [] k v = [(k, [v])]"
| "dd_append ((k', vs) # d) k v =
     (if k' = k then (k', vs @ [v]) # d else (k', vs) # dd_append d k v)"

text \<open>\<^verbatim>\<open>d[k]\<close>: reading a missing key creates it with the empty list.\<close>

definition dd_get :: "('k \<times> 'v list) list \<Rightarrow> 'k \<Rightarrow> 'v list \<times> ('k \<times> 'v list) list" where
  "dd_get d k = (case map_of d k of Some vs \<Rightarrow> (vs, d) | None \<Rightarrow> ([], d @ [(k, [])]))"

subsection \<open>States, the transition function and the engine\<close>

text \<open>
  The class \<^verbatim>\<open>State\<close> is not part of the sources at hand. Its three attributes are
  the ones \<^verbatim>\<open>search\<close> reads; whatever else a concrete subclass carries is the
  extension of the record. The methods \<^verbatim>\<open>combine_states\<close> and \<^verbatim>\<open>is_finished\<close>
  and the transition function's \<^verbatim>\<open>take_step\<close> are parameters of the model; the
  latter two may raise. With them goes the one part of the interpreter that Python
  leaves open: what \<^verbatim>\<open>list.sort\<close> returns when a key is NaN.
\<close>

record state =
  batch_indices :: "int list"
  score :: "pyfloat list"
  action_history :: "int list list"

record 's collaborators =
  combine_states :: "'s list \<Rightarrow> 's"
  is_finished :: "'s \<Rightarrow> error + bool"
  take_step :: "'s \<Rightarrow> int \<Rightarrow> int list option \<Rightarrow> error + 's list"
  sort_with_nan :: "(pyfloat \<times> 's) list \<Rightarrow> (pyfloat \<times> 's) list"

type_synonym beam_log = "(pyfloat \<times> int list) list list"

record beam_search =
  beam_size :: int
  per_node_beam_size :: int
  allowed_transitions :: "(int list \<times> int) list option"
  beams :: "beam_log option"

text \<open>
  Modelled from the spec: \<^verbatim>\<open>util.construct_prefix_tree\<close> is not part of the sources at
  hand. For the single target sequence the engine passes, the keys are the proper
  prefixes of the sequence (the empty one included) and each value is the one action
  that follows the prefix.
\<close>

definition construct_prefix_tree :: "int list \<Rightarrow> (int list \<times> int) list" where
  "construct_prefix_tree sq = map (\<lambda>i. (take i sq, sq ! i)) [0..<length sq]"

text \<open>
  \<^verbatim>\<open>__init__\<close>. The expression \<^verbatim>\<open>per_node_beam_size or beam_size\<close> takes
  \<^verbatim>\<open>beam_size\<close> when \<^verbatim>\<open>per_node_beam_size\<close> is \<^verbatim>\<open>None\<close> or zero.
\<close>

definition BeamSearch_init :: "int \<Rightarrow> int option \<Rightarrow> int list option \<Rightarrow> bool \<Rightarrow> beam_search" where
  "BeamSearch_init bs pnbs initial_sequence keep_beam_details =
     \<lparr>beam_size = bs,
      per_node_beam_size =
        (case pnbs of None \<Rightarrow> bs | Some p \<Rightarrow> if p = 0 then bs else p),
      allowed_transitions = map_option construct_prefix_tree initial_sequence,
      beams = (if keep_beam_details then Some [] else None)\<rparr>"

text \<open>
  \<^verbatim>\<open>constrained_to\<close>: the pair of the receiver after the call and the new engine.
\<close>

definition constrained_to :: "beam_search \<Rightarrow> int list \<Rightarrow> bool \<Rightarrow> beam_search \<times> beam_search" where
  "constrained_to self initial_sequence keep_beam_details =
     (self,
      BeamSearch_init (beam_size self) (Some (per_node_beam_size self))
        (Some initial_sequence) keep_beam_details)"

text \<open>The call without the optional argument: \<^verbatim>\<open>keep_beam_details=True\<close>.\<close>

definition constrained_to_default :: "beam_search \<Rightarrow> int list \<Rightarrow> beam_search \<times> beam_search" where
  "constrained_to_default self initial_sequence = constrained_to self initial_sequence True"

subsection \<open>The variables of \<^verbatim>\<open>search\<close>\<close>

text \<open>
  The local variables of \<^verbatim>\<open>search\<close> that live across iterations, the engine (whose
  \<^verbatim>\<open>beams\<close> the method mutates), and a ghost variable: the arguments of every call
  to \<^verbatim>\<open>take_step\<close> so far, in order.
\<close>

record 's vars =
  finished_states :: "(int \<times> 's list) list"
  states :: "'s list"
  step_num :: int
  self :: beam_search
  calls :: "('s \<times> int \<times> int list option) list"

subsection \<open>One iteration of the loop\<close>

text \<open>Lines 108--113: the restriction passed to the transition function.\<close>

definition allowed_actions_for :: "beam_search \<Rightarrow> 'a state_scheme \<Rightarrow> error + int list option" where
  "allowed_actions_for eng grouped_state =
     (case allowed_transitions eng of
        None \<Rightarrow> Inr None
      | Some d \<Rightarrow>
          if d = [] then Inr None
          else (case item0 (action_history grouped_state) of
                  Inl e \<Rightarrow> Inl e
                | Inr key \<Rightarrow>
                    (case map_of d key of
                       Some a \<Rightarrow> Inr (Some [a])
                     | None \<Rightarrow> Inr None)))"

text \<open>
  Lines 115--127, the loop over the candidates. \<open>last_kept\<close> is the value of
  \<^verbatim>\<open>step_num == num_steps and keep_final_unfinished_states\<close>, which does not change
  within one step. The accumulators are \<^verbatim>\<open>finished_states\<close> and \<^verbatim>\<open>next_states\<close>.
\<close>

fun consume ::
  "('a state_scheme \<Rightarrow> error + bool) \<Rightarrow> bool \<Rightarrow> 'a state_scheme list \<Rightarrow>
   (int \<times> 'a state_scheme list) list \<Rightarrow> (int \<times> 'a state_scheme list) list \<Rightarrow>
   error + (int \<times> 'a state_scheme list) list \<times> (int \<times> 'a state_scheme list) list" where
  "consume fin last_kept [] finished next_states = Inr (finished, next_states)"
| "consume fin last_kept (next_state # rest) finished next_states =
     (case item0 (batch_indices next_state) of
        Inl e \<Rightarrow> Inl e
      | Inr batch_index \<Rightarrow>
          (case fin next_state of
             Inl e \<Rightarrow> Inl e
           | Inr True \<Rightarrow>
               consume fin last_kept rest (dd_append finished batch_index next_state) next_states
           | Inr False \<Rightarrow>
               consume fin last_kept rest
                 (if last_kept then dd_append finished batch_index next_state else finished)
                 (dd_append next_states batch_index next_state)))"

text \<open>
  The tuple \<^verbatim>\<open>(state.score[0].item(), state.action_history[0])\<close> of lines 136 and
  143--144.
\<close>

definition beam_entry :: "'a state_scheme \<Rightarrow> error + pyfloat \<times> int list" where
  "beam_entry s =
     (case item0 (score s) of
        Inl e \<Rightarrow> Inl e
      | Inr sc \<Rightarrow>
          (case item0 (action_history s) of
             Inl e \<Rightarrow> Inl e
           | Inr ah \<Rightarrow> Inr (sc, ah)))"

text \<open>Lines 136--137: the list comprehension over \<^verbatim>\<open>batch_states\<close>.\<close>

fun beam_entries :: "'a state_scheme list \<Rightarrow> error + (pyfloat \<times> int list) list" where
  "beam_entries [] = Inr []"
| "beam_entries (s # ss) =
     (case beam_entry s of
        Inl e \<Rightarrow> Inl e
      | Inr p \<Rightarrow>
          (case beam_entries ss of
             Inl e \<Rightarrow> Inl e
           | Inr es \<Rightarrow> Inr (p # es)))"

text \<open>
  Lines 128--137, the loop over \<^verbatim>\<open>next_states.items()\<close>: the new active list and
  the engine's \<^verbatim>\<open>beams\<close>. An exception leaves both as they are at that moment.
\<close>

fun prune ::
  "int \<Rightarrow> (int \<times> 'a state_scheme list) list \<Rightarrow> 'a state_scheme list \<Rightarrow> beam_log option \<Rightarrow>
   error option \<times> 'a state_scheme list \<times> beam_log option" where
  "prune bs [] sts bm = (None, sts, bm)"
| "prune bs ((batch_index, batch_states) # rest) sts bm =
     (let sts' = sts @ py_take bs batch_states in
      case bm of
        None \<Rightarrow> prune bs rest sts' None
      | Some lg \<Rightarrow>
          (case beam_entries batch_states of
             Inl e \<Rightarrow> (Some e, sts', Some lg)
           | Inr es \<Rightarrow> prune bs rest sts' (Some (lg @ [es]))))"

text \<open>
  Lines 102--137: the body of the \<^verbatim>\<open>while\<close> loop without its last statement,
  \<^verbatim>\<open>step_num += 1\<close>. The result is the exception raised, if any, and the variables
  after the body; after an exception only the engine and the ghost variable are
  meaningful, the locals being lost with the frame.
\<close>

definition loop_body ::
  "'a state_scheme collaborators \<Rightarrow> int \<Rightarrow> bool \<Rightarrow> 'a state_scheme vars \<Rightarrow>
   error option \<times> 'a state_scheme vars" where
  "loop_body c num_steps keep_final_unfinished_states v =
     (let grouped_state = combine_states c (states v) in
      case allowed_actions_for (self v) grouped_state of
        Inl e \<Rightarrow> (Some e, v)
      | Inr allowed_actions \<Rightarrow>
          (let v1 = v\<lparr>calls := calls v @
                     [(grouped_state, per_node_beam_size (self v), allowed_actions)]\<rparr> in
           case take_step c grouped_state (per_node_beam_size (self v)) allowed_actions of
             Inl e \<Rightarrow> (Some e, v1)
           | Inr candidates \<Rightarrow>
               (case consume (is_finished c)
                       (step_num v = num_steps \<and> keep_final_unfinished_states)
                       candidates (finished_states v) [] of
                  Inl e \<Rightarrow> (Some e, v1)
                | Inr (finished, next_states) \<Rightarrow>
                    (case prune (beam_size (self v)) next_states [] (beams (self v)) of
                       (err, sts, bm) \<Rightarrow>
                         (err, v1\<lparr>finished_states := finished, states := sts,
                                  self := (self v)\<lparr>beams := bm\<rparr>\<rparr>)))))"

text \<open>
  Lines 101--138: the \<^verbatim>\<open>while\<close> loop. \<^verbatim>\<open>while states\<close> tests that the list is
  not empty.
\<close>

function search_loop ::
  "'a state_scheme collaborators \<Rightarrow> int \<Rightarrow> bool \<Rightarrow> 'a state_scheme vars \<Rightarrow>
   error option \<times> 'a state_scheme vars" where
  "search_loop c num_steps keep_final_unfinished_states v =
     (if states v \<noteq> [] \<and> step_num v \<le> num_steps then
        (case loop_body c num_steps keep_final_unfinished_states v of
           (Some e, v') \<Rightarrow> (Some e, v')
         | (None, v') \<Rightarrow>
             search_loop c num_steps keep_final_unfinished_states
               (v'\<lparr>step_num := step_num v + 1\<rparr>))
      else (None, v))"
  by pat_completeness auto
termination
  by (relation "measure (\<lambda>(c, num_steps, k, v). nat (num_steps + 1 - step_num v))") auto

declare search_loop.simps [simp del]

subsection \<open>After the loop\<close>

text \<open>
  Lines 146--149: pad the log with empty entries up to the length of the action
  history, then append the pair to the entry at index \<^verbatim>\<open>len(action_history) - 1\<close>.
\<close>

definition backfill_one :: "beam_log \<Rightarrow> pyfloat \<times> int list \<Rightarrow> error + beam_log" where
  "backfill_one lg p =
     (let lg' = lg @ replicate (length (snd p) - length lg) []
      in append_at lg' (int (length (snd p)) - 1) p)"

text \<open>Lines 142--149: the loop over \<^verbatim>\<open>finished_states[0]\<close>.\<close>

fun backfill :: "'a state_scheme list \<Rightarrow> beam_log \<Rightarrow> error option \<times> beam_log" where
  "backfill [] lg = (None, lg)"
| "backfill (s # ss) lg =
     (case beam_entry s of
        Inl e \<Rightarrow> (Some e, lg)
      | Inr p \<Rightarrow>
          (case backfill_one lg p of
             Inl e \<Rightarrow> (Some e, lg @ replicate (length (snd p) - length lg) [])
           | Inr lg' \<Rightarrow> backfill ss lg'))"

text \<open>Line 155: the list comprehension of (negated score, state) pairs.\<close>

fun finished_to_sort :: "'a state_scheme list \<Rightarrow> error + (pyfloat \<times> 'a state_scheme) list" where
  "finished_to_sort [] = Inr []"
| "finished_to_sort (s # ss) =
     (case item0 (score s) of
        Inl e \<Rightarrow> Inl e
      | Inr sc \<Rightarrow>
          (case finished_to_sort ss of
             Inl e \<Rightarrow> Inl e
           | Inr ps \<Rightarrow> Inr ((fneg sc, s) # ps)))"

text \<open>Lines 155--157 for one batch index.\<close>

definition rank_states ::
  "((pyfloat \<times> 'a state_scheme) list \<Rightarrow> (pyfloat \<times> 'a state_scheme) list) \<Rightarrow> int \<Rightarrow>
   'a state_scheme list \<Rightarrow> error + 'a state_scheme list" where
  "rank_states with_nan bs batch_states =
     (case finished_to_sort batch_states of
        Inl e \<Rightarrow> Inl e
      | Inr ps \<Rightarrow> Inr (map snd (py_take bs (list_sort with_nan ps))))"

text \<open>Lines 151--158: the loop over \<^verbatim>\<open>finished_states.items()\<close>.\<close>

fun best_states ::
  "((pyfloat \<times> 'a state_scheme) list \<Rightarrow> (pyfloat \<times> 'a state_scheme) list) \<Rightarrow> int \<Rightarrow>
   (int \<times> 'a state_scheme list) list \<Rightarrow> error + (int \<times> 'a state_scheme list) list" where
  "best_states with_nan bs [] = Inr []"
| "best_states with_nan bs ((batch_index, batch_states) # rest) =
     (case rank_states with_nan bs batch_states of
        Inl e \<Rightarrow> Inl e
      | Inr ranked \<Rightarrow>
          (case best_states with_nan bs rest of
             Inl e \<Rightarrow> Inl e
           | Inr m \<Rightarrow> Inr ((batch_index, ranked) # m)))"

subsection \<open>\<^verbatim>\<open>search\<close>\<close>

text \<open>Lines 98--99: the stored beams are erased, if the engine tracks them.\<close>

definition clear_beams :: "beam_search \<Rightarrow> beam_search" where
  "clear_beams eng = eng\<lparr>beams := map_option (\<lambda>_. []) (beams eng)\<rparr>"

text \<open>Lines 93--99: the variables before the loop.\<close>

definition initial_vars :: "beam_search \<Rightarrow> 'a state_scheme \<Rightarrow> 'a state_scheme vars" where
  "initial_vars eng initial_state =
     \<lparr>finished_states = [], states = [initial_state], step_num = 1,
      self = clear_beams eng, calls = []\<rparr>"

text \<open>
  Lines 93--149: everything before the final ranking. When the engine keeps beam
  details, reading \<^verbatim>\<open>finished_states[0]\<close> creates the key 0 if it is missing.
\<close>

definition search_run ::
  "beam_search \<Rightarrow> 'a state_scheme collaborators \<Rightarrow> int \<Rightarrow> 'a state_scheme \<Rightarrow> bool \<Rightarrow>
   error option \<times> 'a state_scheme vars" where
  "search_run eng c num_steps initial_state keep_final_unfinished_states =
     (case search_loop c num_steps keep_final_unfinished_states (initial_vars eng initial_state) of
        (Some e, v) \<Rightarrow> (Some e, v)
      | (None, v) \<Rightarrow>
          (case beams (self v) of
             None \<Rightarrow> (None, v)
           | Some lg \<Rightarrow>
               (case dd_get (finished_states v) 0 of
                  (batch_states, finished) \<Rightarrow>
                    (case backfill batch_states lg of
                       (err, lg') \<Rightarrow>
                         (err, v\<lparr>finished_states := finished,
                                 self := (self v)\<lparr>beams := Some lg'\<rparr>\<rparr>)))))"

text \<open>
  \<^verbatim>\<open>search\<close>: the returned dictionary, or the exception raised, and the engine after
  the call.
\<close>

definition search ::
  "beam_search \<Rightarrow> 'a state_scheme collaborators \<Rightarrow> int \<Rightarrow> 'a state_scheme \<Rightarrow> bool \<Rightarrow>
   (error + (int \<times> 'a state_scheme list) list) \<times> beam_search" where
  "search eng c num_steps initial_state keep_final_unfinished_states =
     (case search_run eng c num_steps initial_state keep_final_unfinished_states of
        (Some e, v) \<Rightarrow> (Inl e, self v)
      | (None, v) \<Rightarrow>
          (best_states (sort_with_nan c) (beam_size (self v)) (finished_states v), self v))"

subsection \<open>Notions used to state the properties\<close>

text \<open>The distinct elements of a list, in the order of their first occurrence.\<close>

fun first_seen :: "'k list \<Rightarrow> 'k list" where
  "first_seen [] = []"
| "first_seen (x # xs) = x # removeAll x (first_seen xs)"

text \<open>The batch index of a candidate as line 121 reads it.\<close>

definition batch_key :: "'a state_scheme \<Rightarrow> error + int" where
  "batch_key s = item0 (batch_indices s)"

text \<open>The candidates for which \<^verbatim>\<open>is_finished()\<close> returns \<^verbatim>\<open>False\<close>.\<close>

definition unfinished :: "('a state_scheme \<Rightarrow> error + bool) \<Rightarrow> 'a state_scheme list \<Rightarrow> 'a state_scheme list" where
  "unfinished fin candidates = filter (\<lambda>s. fin s = Inr False) candidates"

text \<open>
  A list of candidates split by batch index: one list per batch index, the batch
  indices in the order of their first occurrence, the candidates of one batch index in
  the order of the list.
\<close>

definition by_batch :: "'a state_scheme list \<Rightarrow> 'a state_scheme list list" where
  "by_batch ss =
     map (\<lambda>key. filter (\<lambda>s. batch_key s = key) ss) (first_seen (map batch_key ss))"

text \<open>
  What one call of the transition function, read from the ghost variable, adds to the
  stored beams: for every batch index with an unfinished candidate, the pairs of all
  its unfinished candidates.
\<close>

definition entries_of_call ::
  "'a state_scheme collaborators \<Rightarrow> 'a state_scheme \<times> int \<times> int list option \<Rightarrow>
   (error + pyfloat \<times> int list) list list" where
  "entries_of_call c call =
     (case call of (grouped_state, max_actions, allowed_actions) \<Rightarrow>
        (case take_step c grouped_state max_actions allowed_actions of
           Inl e \<Rightarrow> []
         | Inr candidates \<Rightarrow>
             map (map beam_entry) (by_batch (unfinished (is_finished c) candidates))))"

subsection \<open>A concrete transition system\<close>

text \<open>
  Modelled from the spec: \<^verbatim>\<open>State.combine_states\<close> is not part of the sources at
  hand. The group of the result is the concatenation of the groups of the inputs.
\<close>

definition combine_plain :: "state list \<Rightarrow> state" where
  "combine_plain ss =
     \<lparr>batch_indices = concat (map batch_indices ss),
      score = concat (map score ss),
      action_history = concat (map action_history ss)\<rparr>"

text \<open>
  The path that CPython's \<^verbatim>\<open>list.sort\<close> takes on a list of fewer than 64 elements,
  which is how it treats the short lists with a NaN key below. The run at the front of
  the list is found by comparing neighbours (\<^verbatim>\<open>count_run\<close>): strictly descending, and
  then reversed, when the second key is below the first, non-descending otherwise.
  The elements after the run are put into it one by one by binary insertion
  (\<^verbatim>\<open>binarysort\<close>); the search for the place of an element starts with the whole
  run, which is not empty, between \<open>l\<close> and \<open>r\<close>.
\<close>

fun run_up :: "pyfloat \<times> 'a \<Rightarrow> (pyfloat \<times> 'a) list \<Rightarrow> nat" where
  "run_up prev [] = 0"
| "run_up prev (p # ps) = (if flt (fst p) (fst prev) then 0 else Suc (run_up p ps))"

fun run_down :: "pyfloat \<times> 'a \<Rightarrow> (pyfloat \<times> 'a) list \<Rightarrow> nat" where
  "run_down prev [] = 0"
| "run_down prev (p # ps) = (if flt (fst p) (fst prev) then Suc (run_down p ps) else 0)"

definition count_run :: "(pyfloat \<times> 'a) list \<Rightarrow> nat \<times> bool" where
  "count_run ps =
     (case ps of
        [] \<Rightarrow> (0, False)
      | [p] \<Rightarrow> (1, False)
      | p0 # p1 # rest \<Rightarrow>
          if flt (fst p1) (fst p0) then (2 + run_down p1 rest, True)
          else (2 + run_up p1 rest, False))"

function bisect :: "pyfloat \<Rightarrow> (pyfloat \<times> 'a) list \<Rightarrow> nat \<Rightarrow> nat \<Rightarrow> nat" where
  "bisect pivot xs l r =
     (if l < r \<and> r \<le> length xs then
        (let p = l + (r - l) div 2
         in if flt pivot (fst (xs ! p)) then bisect pivot xs l p else bisect pivot xs (p + 1) r)
      else l)"
  by pat_completeness auto
termination
  by (relation "measure (\<lambda>(pivot, xs, l, r). r - l)") auto

declare bisect.simps [simp del]

fun binarysort :: "(pyfloat \<times> 'a) list \<Rightarrow> (pyfloat \<times> 'a) list \<Rightarrow> (pyfloat \<times> 'a) list" where
  "binarysort run [] = run"
| "binarysort run (p # ps) =
     (let l = bisect (fst p) run 0 (length run)
      in binarysort (take l run @ p # drop l run) ps)"

definition short_list_sort :: "(pyfloat \<times> 'a) list \<Rightarrow> (pyfloat \<times> 'a) list" where
  "short_list_sort ps =
     (case count_run ps of
        (n, descending) \<Rightarrow>
          binarysort (if descending then rev (take n ps) else take n ps) (drop n ps))"

text \<open>One point below a score.\<close>

fun one_below :: "pyfloat \<Rightarrow> pyfloat" where
  "one_below (Finite x) = Finite (x - 1)"
| "one_below x = x"

text \<open>
  The binary tree: every group member has the children that append the bit 0 and the
  bit 1 to its history, in this order, each one point below its parent; a restriction
  keeps the allowed bits only, and at most \<open>max_actions\<close> children are returned per
  member. A state is finished when its history has reached the given depth;
  \<^verbatim>\<open>is_finished\<close> raises on a group whose size is not 1.
\<close>

definition children :: "int list option \<Rightarrow> int \<Rightarrow> int \<times> pyfloat \<times> int list \<Rightarrow> state list" where
  "children allowed_actions max_actions member =
     (case member of (b, sc, h) \<Rightarrow>
        py_take max_actions
          (map (\<lambda>a. \<lparr>batch_indices = [b], score = [one_below sc], action_history = [h @ [a]]\<rparr>)
             (filter (\<lambda>a. case allowed_actions of None \<Rightarrow> True | Some as \<Rightarrow> a \<in> set as)
                [0, 1])))"

definition bit_tree :: "nat \<Rightarrow> state collaborators" where
  "bit_tree depth =
     \<lparr>combine_states = combine_plain,
      is_finished =
        (\<lambda>s. if length (batch_indices s) \<noteq> 1 then Inl (Raised ''group size is not 1'')
              else Inr (list_all (\<lambda>h. depth \<le> length h) (action_history s))),
      take_step =
        (\<lambda>g max_actions allowed_actions.
           Inr (concat (map (children allowed_actions max_actions)
                  (zip (batch_indices g) (zip (score g) (action_history g)))))),
      sort_with_nan = short_list_sort\<rparr>"

text \<open>
  A transition system with one step: whatever the state, the candidates are finished
  states of batch index 0 with the given scores, in the given order, the history of
  each being its position.
\<close>

definition fixed_scores :: "pyfloat list \<Rightarrow> state collaborators" where
  "fixed_scores xs =
     \<lparr>combine_states = combine_plain,
      is_finished =
        (\<lambda>s. if length (batch_indices s) \<noteq> 1 then Inl (Raised ''group size is not 1'')
              else Inr True),
      take_step =
        (\<lambda>g max_actions allowed_actions.
           Inr (map (\<lambda>(i, x). \<lparr>batch_indices = [0], score = [x], action_history = [[int i]]\<rparr>)
                  (enumerate 0 xs))),
      sort_with_nan = short_list_sort\<rparr>"

text \<open>The initial state of a batch: score 0 and the empty history for every member.\<close>

definition start :: "int list \<Rightarrow> state" where
  "start bs =
     \<lparr>batch_indices = bs, score = map (\<lambda>_. Finite 0) bs,
      action_history = map (\<lambda>_. []) bs\<rparr>"

section \<open>Properties\<close>

subsection \<open>Slices, ranking and the engine's configuration\<close>

lemma py_take_length: "0 \<le> k \<Longrightarrow> int (length (py_take k xs)) \<le> k"
  by (simp add: py_take_def)

lemma rank_states_length:
  "rank_states wn bs xs = Inr l \<Longrightarrow> 0 \<le> bs \<Longrightarrow> int (length l) \<le> bs"
  by (auto simp: rank_states_def py_take_length split: sum.splits)

lemma best_states_member:
  "best_states wn bs d = Inr m \<Longrightarrow> (b, l) \<in> set m \<Longrightarrow>
   \<exists>acc. (b, acc) \<in> set d \<and> rank_states wn bs acc = Inr l"
proof (induction d arbitrary: m)
  case Nil
  then show ?case by simp
next
  case (Cons p d)
  obtain b' xs where p: "p = (b', xs)" by (cases p)
  from Cons.prems(1) obtain r m' where
    r: "rank_states wn bs xs = Inr r" and m': "best_states wn bs d = Inr m'"
    and m: "m = (b', r) # m'"
    by (auto simp: p split: sum.splits)
  from Cons.prems(2) m consider "(b, l) = (b', r)" | "(b, l) \<in> set m'" by auto
  then show ?case
  proof cases
    case 1
    with r p show ?thesis by auto
  next
    case 2
    from Cons.IH[OF m' 2] show ?thesis by auto
  qed
qed

lemma best_states_keys: "best_states wn bs d = Inr m \<Longrightarrow> map fst m = map fst d"
  by (induction d arbitrary: m) (auto split: sum.splits)

lemma clear_beams_idem: "clear_beams (clear_beams eng) = clear_beams eng"
  by (simp add: clear_beams_def option.map_comp comp_def)

lemma clear_beams_fields:
  "beam_size (clear_beams eng) = beam_size eng"
  "per_node_beam_size (clear_beams eng) = per_node_beam_size eng"
  "allowed_transitions (clear_beams eng) = allowed_transitions eng"
  "beams (clear_beams eng) = map_option (\<lambda>_. []) (beams eng)"
  by (simp_all add: clear_beams_def)

lemma clear_beams_update: 
  "map_option (\<lambda>_. []) bm = map_option (\<lambda>_. []) (beams eng) \<Longrightarrow>
   clear_beams (eng\<lparr>beams := bm\<rparr>) = clear_beams eng"
  unfolding clear_beams_def by (cases bm; cases "beams eng") simp_all

lemma prune_none: "prune bs nxt sts bm = (err, sts', bm') \<Longrightarrow>
    map_option (\<lambda>_. []) bm' = map_option (\<lambda>_. []) bm"
  apply (induction bs nxt sts bm rule: prune.induct)
   apply (auto simp: Let_def split: option.splits sum.splits)
  done

lemma loop_body_config: 
  assumes "loop_body c n k v = (err, v')" 
  shows "clear_beams (self v') = clear_beams (self v)"
proof -
  have "self v' = (self v)\<lparr>beams := beams (self v')\<rparr> \<and>
          map_option (\<lambda>_. []) (beams (self v')) = map_option (\<lambda>_. []) (beams (self v))"
    using assms
    by (auto simp: loop_body_def Let_def split: sum.splits prod.splits dest!: prune_none)
  then show ?thesis
    by (metis clear_beams_update)
qed

text \<open>An invariant rule for the loop.\<close>

lemma search_loop_invariant:
  assumes run: "search_loop c n k v = (err, v')"
    and init: "P v"
    and step: "\<And>u u'. P u \<Longrightarrow> states u \<noteq> [] \<Longrightarrow> step_num u \<le> n \<Longrightarrow>
                 loop_body c n k u = (None, u') \<Longrightarrow> P (u'\<lparr>step_num := step_num u + 1\<rparr>)"
  shows "(err = None \<and> P v' \<and> (states v' = [] \<or> n < step_num v')) \<or>
         (\<exists>u e. err = Some e \<and> P u \<and> states u \<noteq> [] \<and> step_num u \<le> n \<and>
                 loop_body c n k u = (Some e, v'))"
  using run init step
proof (induction c n k v rule: search_loop.induct)
  case (1 c n k v)
  show ?case
  proof (cases "states v \<noteq> [] \<and> step_num v \<le> n")
    case False
    with "1.prems" show ?thesis
      by (subst (asm) search_loop.simps) auto
  next
    case True
    obtain e u where lb: "loop_body c n k v = (e, u)" by force
    show ?thesis
    proof (cases e)
      case (Some x)
      with True lb "1.prems" show ?thesis
        by (subst (asm) search_loop.simps) auto
    next
      case None
      with True lb "1.prems"(1) have
        rec: "search_loop c n k (u\<lparr>step_num := step_num v + 1\<rparr>) = (err, v')"
        by (subst (asm) search_loop.simps) simp
      from True have ne: "states v \<noteq> []" and le: "step_num v \<le> n" by auto
      from lb None have "loop_body c n k v = (None, u)" by simp
      from "1.prems"(3)[OF "1.prems"(2) ne le this]
      have P': "P (u\<lparr>step_num := step_num v + 1\<rparr>)" .
      from "1.IH"[OF True lb[symmetric] None rec P' "1.prems"(3)] show ?thesis by blast
    qed
  qed
qed

lemma search_loop_config:
  assumes "search_loop c n k v = (err, v')"
  shows "clear_beams (self v') = clear_beams (self v)"
proof -
  have "(err = None \<and> clear_beams (self v') = clear_beams (self v) \<and>
           (states v' = [] \<or> n < step_num v')) \<or>
        (\<exists>u e. err = Some e \<and> clear_beams (self u) = clear_beams (self v) \<and> states u \<noteq> [] \<and>
                step_num u \<le> n \<and> loop_body c n k u = (Some e, v'))"
    by (rule search_loop_invariant[OF assms, where P = "\<lambda>u. clear_beams (self u) = clear_beams (self v)"])
       (auto dest: loop_body_config)
  then show ?thesis
    by (auto dest: loop_body_config)
qed

lemma search_run_config:
  assumes "search_run eng c n s k = (err, v)"
  shows "clear_beams (self v) = clear_beams eng"
proof -
  obtain e0 v0 where loop: "search_loop c n k (initial_vars eng s) = (e0, v0)" by force
  from search_loop_config[OF loop] have c0: "clear_beams (self v0) = clear_beams eng"
    by (simp add: initial_vars_def clear_beams_idem)
  show ?thesis
  proof (cases "e0 = None \<and> beams (self v0) \<noteq> None")
    case False
    with assms loop c0 show ?thesis
      by (auto simp: search_run_def split: option.splits)
  next
    case True
    then obtain lg where lg: "beams (self v0) = Some lg" by auto
    obtain bs fin where g: "dd_get (finished_states v0) 0 = (bs, fin)" by force
    obtain e1 lg' where b: "backfill bs lg = (e1, lg')" by force
    from assms loop True lg g b have "self v = (self v0)\<lparr>beams := Some lg'\<rparr>"
      by (auto simp: search_run_def)
    moreover have "clear_beams ((self v0)\<lparr>beams := Some lg'\<rparr>) = clear_beams (self v0)"
      by (rule clear_beams_update) (simp add: lg)
    ultimately show ?thesis using c0 by simp
  qed
qed

lemma search_engine_after:
  "search eng c n s k = (r, eng') \<Longrightarrow> clear_beams eng' = clear_beams eng"
  by (auto simp: search_def split: prod.splits option.splits dest: search_run_config)

lemma search_clear_beams: "search (clear_beams eng) c n s k = search eng c n s k"
  by (simp add: search_def search_run_def initial_vars_def clear_beams_idem)

lemma beam_size_clear: "clear_beams a = clear_beams b \<Longrightarrow> beam_size a = beam_size b"
  by (metis clear_beams_fields(1))

text \<open>
  Claim C1. Whenever \<^verbatim>\<open>search\<close> returns, every list in the returned mapping has at
  most \<^verbatim>\<open>beam_size\<close> elements. The beam size is the non-negative one of the
  engine's interface; for a negative one the slice \<^verbatim>\<open>[:beam_size]\<close> drops elements
  from the end instead.
\<close>

theorem search_length_bound:
  assumes "search eng c num_steps initial_state keep = (Inr m, eng')"
    and "0 \<le> beam_size eng"
    and "(b, l) \<in> set m"
  shows "int (length l) \<le> beam_size eng"
proof -
  obtain err v where run: "search_run eng c num_steps initial_state keep = (err, v)" by force
  with assms(1) have best: "best_states (sort_with_nan c) (beam_size (self v)) (finished_states v) = Inr m"
    by (auto simp: search_def split: option.splits)
  have bs: "beam_size (self v) = beam_size eng"
    using search_run_config[OF run] by (rule beam_size_clear)
  from best_states_member[OF best assms(3)] obtain acc where
    "rank_states (sort_with_nan c) (beam_size (self v)) acc = Inr l" by blast
  from rank_states_length[OF this] assms(2) bs show ?thesis by simp
qed

text \<open>
  Claim C7. A second call of \<^verbatim>\<open>search\<close> on the engine the first call leaves
  behind, with the same arguments, has the same outcome as the first: the same mapping
  with the same order inside each list (or the same exception), and the same engine
  afterwards. Nothing that the first call stored in the accumulators or the beams
  reaches the second. The transition function is a function of its arguments, that
  is, deterministic.
\<close>

theorem search_twice:
  "search (snd (search eng c num_steps initial_state keep)) c num_steps initial_state keep =
   search eng c num_steps initial_state keep"
proof -
  obtain r eng' where s: "search eng c num_steps initial_state keep = (r, eng')" by force
  from search_engine_after[OF s] have "clear_beams eng' = clear_beams eng" .
  then have "search eng' c num_steps initial_state keep = search eng c num_steps initial_state keep"
    by (metis search_clear_beams)
  with s show ?thesis by simp
qed

lemmas ex_defs = search_loop.simps search_def search_run_def initial_vars_def BeamSearch_init_def start_def bit_tree_def loop_body_def
   allowed_actions_for_def combine_plain_def children_def py_take_def item0_def rank_states_def clear_beams_def
   list_sort_def fixed_scores_def
   dd_get_def backfill_one_def append_at_def beam_entry_def Let_def

lemma ex_search_1:
  "search (BeamSearch_init 2 None None False) (bit_tree 2) 3 (start [0]) True =
    (Inr [(0, [\<lparr>batch_indices = [0], score = [Finite (- 2)], action_history = [[0, 0]]\<rparr>,
               \<lparr>batch_indices = [0], score = [Finite (- 2)], action_history = [[0, 1]]\<rparr>])],
     BeamSearch_init 2 None None False)"
  by (simp add: ex_defs)

theorem search_length_bound_witness:
  "search (BeamSearch_init 2 None None False) (bit_tree 2) 3 (start [0]) True =
    (Inr [(0, [\<lparr>batch_indices = [0], score = [Finite (- 2)], action_history = [[0, 0]]\<rparr>,
               \<lparr>batch_indices = [0], score = [Finite (- 2)], action_history = [[0, 1]]\<rparr>])],
     BeamSearch_init 2 None None False) \<and>
   int (length [\<lparr>batch_indices = [0], score = [Finite (- 2)], action_history = [[0::int, 0]]\<rparr>,
               \<lparr>batch_indices = [0], score = [Finite (- 2)], action_history = [[0, 1]]\<rparr>]) \<le>
     beam_size (BeamSearch_init 2 None None False)"
  using search_length_bound[OF ex_search_1, of 0 "[\<lparr>batch_indices = [0], score = [Finite (- 2)], action_history = [[0, 0]]\<rparr>,
               \<lparr>batch_indices = [0], score = [Finite (- 2)], action_history = [[0, 1]]\<rparr>]"] ex_search_1
  by (simp add: BeamSearch_init_def)

subsection \<open>The returned mapping and the key 0\<close>

lemma best_states_lookup:
  "best_states wn bs d = Inr m \<Longrightarrow>
   (case map_of d b of
      None \<Rightarrow> map_of m b = None
    | Some acc \<Rightarrow> \<exists>l. map_of m b = Some l \<and> rank_states wn bs acc = Inr l)"
  by (induction d arbitrary: m) (auto split: sum.splits option.splits)

lemma rank_states_Nil: "rank_states wn bs [] = Inr []"
  by (simp add: rank_states_def list_sort_def py_take_def)

lemma dd_get_lookup:
  assumes "dd_get d k = (vs, d')"
  shows "map_of d' k = Some vs \<and> (map_of d k = None \<longrightarrow> vs = [])"
proof (cases "map_of d k")
  case None
  with assms show ?thesis by (auto simp: dd_get_def map_add_def)
next
  case (Some a)
  with assms show ?thesis by (auto simp: dd_get_def)
qed

text \<open>
  Claim C9. For a receiver built by \<^verbatim>\<open>__init__\<close>, whatever its beams have become
  since, \<^verbatim>\<open>constrained_to\<close> leaves the receiver as it is and returns an engine with
  the receiver's \<^verbatim>\<open>beam_size\<close> and \<^verbatim>\<open>per_node_beam_size\<close>, with the constraint
  map built from the given sequence, and with beam details kept exactly when the
  argument says so, which is the case when the argument is left out.
\<close>

theorem constrained_to_new_engine:
  "fst (constrained_to ((BeamSearch_init bs p sq kd)\<lparr>beams := lg\<rparr>) initial_sequence k) =
     (BeamSearch_init bs p sq kd)\<lparr>beams := lg\<rparr> \<and>
   beam_size (snd (constrained_to ((BeamSearch_init bs p sq kd)\<lparr>beams := lg\<rparr>) initial_sequence k)) =
     beam_size ((BeamSearch_init bs p sq kd)\<lparr>beams := lg\<rparr>) \<and>
   per_node_beam_size (snd (constrained_to ((BeamSearch_init bs p sq kd)\<lparr>beams := lg\<rparr>) initial_sequence k)) =
     per_node_beam_size ((BeamSearch_init bs p sq kd)\<lparr>beams := lg\<rparr>) \<and>
   allowed_transitions (snd (constrained_to ((BeamSearch_init bs p sq kd)\<lparr>beams := lg\<rparr>) initial_sequence k)) =
     Some (construct_prefix_tree initial_sequence) \<and>
   (beams (snd (constrained_to ((BeamSearch_init bs p sq kd)\<lparr>beams := lg\<rparr>) initial_sequence k)) \<noteq> None) = k \<and>
   beams (snd (constrained_to_default ((BeamSearch_init bs p sq kd)\<lparr>beams := lg\<rparr>) initial_sequence)) =
     Some []"
  by (simp add: constrained_to_default_def constrained_to_def BeamSearch_init_def split: option.splits)

lemma search_loop_no_step:
  "n \<le> 0 \<Longrightarrow> search_loop c n k (initial_vars eng s) = (None, initial_vars eng s)"
  by (subst search_loop.simps) (simp add: initial_vars_def)

text \<open>
  Claim C4, as amended. Nothing is validated and nothing fails. The constructor stores
  \<^verbatim>\<open>beam_size\<close> as given, and \<^verbatim>\<open>per_node_beam_size\<close> as given unless it is
  \<^verbatim>\<open>None\<close> or 0, which \<^verbatim>\<open>beam_size\<close> replaces. A search with
  \<^verbatim>\<open>num_steps \<le> 0\<close> returns normally without calling the transition function: the
  empty mapping, or the mapping with the one key 0 and the empty list when the engine
  keeps beam details.
\<close>

theorem no_validation:
  "beam_size (BeamSearch_init bs p sq kd) = bs \<and>
   per_node_beam_size (BeamSearch_init bs p sq kd) =
     (case p of None \<Rightarrow> bs | Some q \<Rightarrow> if q = 0 then bs else q) \<and>
   (num_steps \<le> 0 \<longrightarrow>
      search eng c num_steps initial_state keep =
        (Inr (if beams eng = None then [] else [(0, [])]), clear_beams eng) \<and>
      calls (snd (search_run eng c num_steps initial_state keep)) = [])"
proof -
  have init: "beam_size (BeamSearch_init bs p sq kd) = bs \<and>
      per_node_beam_size (BeamSearch_init bs p sq kd) =
        (case p of None \<Rightarrow> bs | Some q \<Rightarrow> if q = 0 then bs else q)"
    by (simp add: BeamSearch_init_def)
  have "search eng c num_steps initial_state keep =
          (Inr (if beams eng = None then [] else [(0, [])]), clear_beams eng) \<and>
        calls (snd (search_run eng c num_steps initial_state keep)) = []"
    if "num_steps \<le> 0"
  proof -
    have run: "search_run eng c num_steps initial_state keep =
        (case beams (self (initial_vars eng initial_state)) of
           None \<Rightarrow> (None, initial_vars eng initial_state)
         | Some lg \<Rightarrow>
             (case dd_get (finished_states (initial_vars eng initial_state)) 0 of
                (batch_states, finished) \<Rightarrow>
                  (case backfill batch_states lg of
                     (err, lg') \<Rightarrow>
                       (err, (initial_vars eng initial_state)\<lparr>finished_states := finished,
                          self := (self (initial_vars eng initial_state))\<lparr>beams := Some lg'\<rparr>\<rparr>))))"
      by (simp add: search_run_def search_loop_no_step[OF that])
    show ?thesis
      by (cases "beams eng")
         (auto simp: search_def run initial_vars_def clear_beams_def dd_get_def rank_states_def
            list_sort_def py_take_def)
  qed
  with init show ?thesis by simp
qed

theorem no_validation_witness:
  "(0::int) \<le> 0 \<and>
   search (BeamSearch_init 2 None None True) (bit_tree 2) 0 (start [0]) True =
     (Inr [(0, [])], BeamSearch_init 2 None None True) \<and>
   calls (snd (search_run (BeamSearch_init 2 None None True) (bit_tree 2) 0 (start [0]) True)) = []"
  using no_validation[of 2 None None True 0 "BeamSearch_init 2 None None True" "bit_tree 2" "start [0]" True]
  by (simp add: BeamSearch_init_def clear_beams_def)

text \<open>
  Claim C4 as stated fails: the constructor accepts \<^verbatim>\<open>beam_size = -1\<close> and replaces
  \<^verbatim>\<open>per_node_beam_size = 0\<close> by it, a search with \<^verbatim>\<open>num_steps = 0\<close> on that
  engine returns the empty mapping, and a search of one step with
  \<^verbatim>\<open>beam_size = -1\<close> returns one of the two finished states.
\<close>

theorem fail_fast_counterexample:
  "BeamSearch_init (- 1) (Some 0) None False =
     \<lparr>beam_size = - 1, per_node_beam_size = - 1, allowed_transitions = None, beams = None\<rparr> \<and>
   search (BeamSearch_init (- 1) (Some 0) None False) (bit_tree 2) 0 (start [0]) True =
     (Inr [], BeamSearch_init (- 1) (Some 0) None False) \<and>
   search (BeamSearch_init (- 1) (Some 2) None False) (bit_tree 1) 1 (start [0]) True =
     (Inr [(0, [\<lparr>batch_indices = [0], score = [Finite (- 1)], action_history = [[0]]\<rparr>])],
      BeamSearch_init (- 1) (Some 2) None False)"
  by (simp add: ex_defs)

text \<open>
  Claim C10. When the engine keeps beam details, the mapping \<^verbatim>\<open>search\<close> returns has
  the key 0, with the empty list when the loop has put no state under batch index 0.
  The instance after the theorem shows the key added: with beam details the batch of
  index 1 returns the keys 1 and 0, without them the key 1 only.
\<close>

theorem diagnostics_add_key_0:
  assumes "beams eng \<noteq> None"
    and "search eng c num_steps initial_state keep = (Inr m, eng')"
  shows "\<exists>l. map_of m 0 = Some l \<and>
           (map_of (finished_states (snd (search_loop c num_steps keep (initial_vars eng initial_state)))) 0 = None
              \<longrightarrow> l = [])"
proof -
  obtain e0 v0 where loop: "search_loop c num_steps keep (initial_vars eng initial_state) = (e0, v0)"
    by force
  have "clear_beams (self v0) = clear_beams eng"
    using search_loop_config[OF loop] by (simp add: initial_vars_def clear_beams_idem)
  then have "beams (clear_beams (self v0)) = beams (clear_beams eng)" by simp
  with assms(1) obtain lg where lg: "beams (self v0) = Some lg"
    by (cases "beams (self v0)") (auto simp: clear_beams_fields)
  obtain vs fin where g: "dd_get (finished_states v0) 0 = (vs, fin)" by force
  obtain e1 lg' where b: "backfill vs lg = (e1, lg')" by force
  from assms(2) loop lg g b have e0: "e0 = None" and e1: "e1 = None"
    by (auto simp: search_def search_run_def split: option.splits)
  from assms(2) loop lg g b e0 e1 have best: "best_states (sort_with_nan c) (beam_size (self v0)) fin = Inr m"
    by (auto simp: search_def search_run_def)
  from dd_get_lookup[OF g] have fin0: "map_of fin 0 = Some vs"
    and emp: "map_of (finished_states v0) 0 = None \<longrightarrow> vs = []" by auto
  from best_states_lookup[OF best, of 0] fin0 obtain l where
    l: "map_of m 0 = Some l" and r: "rank_states (sort_with_nan c) (beam_size (self v0)) vs = Inr l" by auto
  from r emp have "map_of (finished_states v0) 0 = None \<longrightarrow> l = []"
    by (auto simp: rank_states_Nil)
  with l loop show ?thesis by simp
qed

lemma ex_search_2:
  "search (BeamSearch_init 2 None None True) (bit_tree 1) 1 (start [1]) True =
     (Inr [(1, [\<lparr>batch_indices = [1], score = [Finite (- 1)], action_history = [[0]]\<rparr>,
                \<lparr>batch_indices = [1], score = [Finite (- 1)], action_history = [[1]]\<rparr>]),
           (0, [])],
      BeamSearch_init 2 None None True)"
  by (simp add: ex_defs)

theorem diagnostics_add_key_0_witness:
  "beams (BeamSearch_init 2 None None True) \<noteq> None \<and>
   search (BeamSearch_init 2 None None True) (bit_tree 1) 1 (start [1]) True =
     (Inr [(1, [\<lparr>batch_indices = [1], score = [Finite (- 1)], action_history = [[0]]\<rparr>,
                \<lparr>batch_indices = [1], score = [Finite (- 1)], action_history = [[1]]\<rparr>]),
           (0, [])],
      BeamSearch_init 2 None None True) \<and>
   (\<exists>l. map_of [(1, [\<lparr>batch_indices = [1], score = [Finite (- 1)], action_history = [[0]]\<rparr>,
                \<lparr>batch_indices = [1], score = [Finite (- 1)], action_history = [[1]]\<rparr>]),
           (0::int, [])] 0 = Some l) \<and>
   search (BeamSearch_init 2 None None False) (bit_tree 1) 1 (start [1]) True =
     (Inr [(1, [\<lparr>batch_indices = [1], score = [Finite (- 1)], action_history = [[0]]\<rparr>,
                \<lparr>batch_indices = [1], score = [Finite (- 1)], action_history = [[1]]\<rparr>])],
      BeamSearch_init 2 None None False)"
proof -
  have b: "beams (BeamSearch_init 2 None None True) \<noteq> None"
    by (simp add: BeamSearch_init_def)
  from diagnostics_add_key_0[OF b ex_search_2] have
    "\<exists>l. map_of [(1, [\<lparr>batch_indices = [1], score = [Finite (- 1)], action_history = [[0]]\<rparr>,
                \<lparr>batch_indices = [1], score = [Finite (- 1)], action_history = [[1]]\<rparr>]),
           (0::int, [])] 0 = Some l" by blast
  moreover have "search (BeamSearch_init 2 None None False) (bit_tree 1) 1 (start [1]) True =
     (Inr [(1, [\<lparr>batch_indices = [1], score = [Finite (- 1)], action_history = [[0]]\<rparr>,
                \<lparr>batch_indices = [1], score = [Finite (- 1)], action_history = [[1]]\<rparr>])],
      BeamSearch_init 2 None None False)"
    by (simp add: ex_defs)
  ultimately show ?thesis using b ex_search_2 by blast
qed

subsection \<open>The restriction passed to the transition function\<close>







subsection \<open>The flag \<^verbatim>\<open>keep_final_unfinished_states\<close>\<close>

lemma loop_body_step_num: "loop_body c n k v = (e, v') \<Longrightarrow> step_num v' = step_num v"
  by (auto simp: loop_body_def Let_def split: sum.splits prod.splits)

lemma search_loop_step_num_mono:
  assumes "search_loop c n k v = (err, u)"
  shows "step_num v \<le> step_num u"
proof -
  have "(err = None \<and> step_num v \<le> step_num u \<and> (states u = [] \<or> n < step_num u)) \<or>
        (\<exists>w e. err = Some e \<and> step_num v \<le> step_num w \<and> states w \<noteq> [] \<and>
                step_num w \<le> n \<and> loop_body c n k w = (Some e, u))"
    by (rule search_loop_invariant[OF assms, where P = "\<lambda>w. step_num v \<le> step_num w"]) auto
  then show ?thesis
    by (auto dest: loop_body_step_num)
qed

lemma loop_body_flag:
  assumes "step_num v \<noteq> n"
  shows "loop_body c n k v = loop_body c n k' v"
proof -
  from assms have eq: "(step_num v = n \<and> k) = (step_num v = n \<and> k')" by simp
  show ?thesis unfolding loop_body_def eq ..
qed

lemma search_loop_flag:
  "search_loop c n k v = (None, u) \<Longrightarrow> step_num u \<le> n \<Longrightarrow> search_loop c n k' v = (None, u)"
proof (induction c n k v rule: search_loop.induct)
  case (1 c n k v)
  show ?case
  proof (cases "states v \<noteq> [] \<and> step_num v \<le> n")
    case False
    with "1.prems"(1) show ?thesis
      by (subst search_loop.simps, subst (asm) search_loop.simps) auto
  next
    case True
    obtain e w where lb: "loop_body c n k v = (e, w)" by force
    with True "1.prems"(1) have e: "e = None"
      by (subst (asm) search_loop.simps) (auto split: option.splits)
    with True lb "1.prems"(1) have
      rec: "search_loop c n k (w\<lparr>step_num := step_num v + 1\<rparr>) = (None, u)"
      by (subst (asm) search_loop.simps) simp
    from search_loop_step_num_mono[OF rec] "1.prems"(2) have "step_num v \<noteq> n" by simp
    from loop_body_flag[OF this] lb e have lb': "loop_body c n k' v = (None, w)" by metis
    from "1.IH"[OF True lb[symmetric] e rec "1.prems"(2)]
    have "search_loop c n k' (w\<lparr>step_num := step_num v + 1\<rparr>) = (None, u)" .
    with True lb' show ?thesis
      by (subst search_loop.simps) simp
  qed
qed

text \<open>
  Claim C6. When the loop of the call with the flag set ends normally with the step
  counter still within \<^verbatim>\<open>num_steps\<close>, that is, when the active list has run empty
  after fewer than \<^verbatim>\<open>num_steps\<close> steps because every path on the beam has reached a
  finished state, the call with the flag cleared has the same outcome: the same
  mapping and the same engine afterwards.
\<close>

theorem keep_final_unfinished_irrelevant:
  assumes "fst (search_loop c num_steps True (initial_vars eng initial_state)) = None"
    and "step_num (snd (search_loop c num_steps True (initial_vars eng initial_state))) \<le> num_steps"
  shows "search eng c num_steps initial_state False = search eng c num_steps initial_state True"
proof -
  obtain u where run: "search_loop c num_steps True (initial_vars eng initial_state) = (None, u)"
    using assms(1) by (cases "search_loop c num_steps True (initial_vars eng initial_state)") auto
  with assms(2) have "step_num u \<le> num_steps" by simp
  from search_loop_flag[OF run this]
  have "search_loop c num_steps False (initial_vars eng initial_state) = (None, u)" .
  with run show ?thesis
    by (simp add: search_def search_run_def)
qed

lemma ex_loop_1:
  "fst (search_loop (bit_tree 2) 3 True (initial_vars (BeamSearch_init 2 None None False) (start [0]))) = None \<and>
   step_num (snd (search_loop (bit_tree 2) 3 True
      (initial_vars (BeamSearch_init 2 None None False) (start [0])))) = 3"
  by (simp add: ex_defs)

theorem keep_final_unfinished_irrelevant_witness:
  "fst (search_loop (bit_tree 2) 3 True (initial_vars (BeamSearch_init 2 None None False) (start [0]))) = None \<and>
   step_num (snd (search_loop (bit_tree 2) 3 True
      (initial_vars (BeamSearch_init 2 None None False) (start [0])))) \<le> 3 \<and>
   search (BeamSearch_init 2 None None False) (bit_tree 2) 3 (start [0]) False =
   search (BeamSearch_init 2 None None False) (bit_tree 2) 3 (start [0]) True"
proof -
  have a: "fst (search_loop (bit_tree 2) 3 True
      (initial_vars (BeamSearch_init 2 None None False) (start [0]))) = None"
    using ex_loop_1 by simp
  have b: "step_num (snd (search_loop (bit_tree 2) 3 True
      (initial_vars (BeamSearch_init 2 None None False) (start [0])))) \<le> 3"
    using ex_loop_1 by simp
  from keep_final_unfinished_irrelevant[OF a b] a b show ?thesis by simp
qed

subsection \<open>The final ranking\<close>

lemma fneg_fneg: "fneg (fneg x) = x"
  by (cases x) auto

lemma fneg_NaN_iff: "fneg x = NaN \<longleftrightarrow> x = NaN"
  by (cases x) auto

lemma ord_key_inj: "ord_key a = ord_key b \<longleftrightarrow> a = b"
  by (cases a; cases b) auto

lemma fle_fneg:
  "a \<noteq> NaN \<Longrightarrow> b \<noteq> NaN \<Longrightarrow> ord_key a \<le> ord_key b \<Longrightarrow> fle (fneg b) (fneg a)"
  by (cases a; cases b) (auto simp: fle_def)

lemma finished_to_sort_pairs:
  "finished_to_sort xs = Inr ps \<Longrightarrow>
   map snd ps = xs \<and> (\<forall>p \<in> set ps. item0 (score (snd p)) = Inr (fneg (fst p)))"
  by (induction xs arbitrary: ps) (auto simp: fneg_fneg split: sum.splits)

lemma py_take_is_take: "\<exists>j. py_take k xs = take j xs"
  by (auto simp: py_take_def)

lemma length_py_take_cong:
  "length xs = length ys \<Longrightarrow> length (py_take k xs) = length (py_take k ys)"
  by (simp add: py_take_def)

lemma rank_states_sorted_stable:
  assumes "rank_states wn bs acc = Inr l"
    and nonan: "\<forall>s \<in> set acc. item0 (score s) \<noteq> Inr NaN"
  shows "length l = length (py_take bs acc) \<and>
         (\<exists>ks. map (\<lambda>s. item0 (score s)) l = map Inr ks \<and> sorted_wrt (\<lambda>x y. fle y x) ks) \<and>
         (\<forall>k. prefix (filter (\<lambda>s. item0 (score s) = Inr k) l)
                      (filter (\<lambda>s. item0 (score s) = Inr k) acc))"
proof -
  let ?f = "\<lambda>p :: pyfloat \<times> 'a state_scheme. ord_key (fst p)"
  from assms(1) obtain ps where ps: "finished_to_sort acc = Inr ps"
    and l: "l = map snd (py_take bs (list_sort wn ps))"
    by (auto simp: rank_states_def split: sum.splits)
  from finished_to_sort_pairs[OF ps] have acc: "map snd ps = acc"
    and sc: "\<And>p. p \<in> set ps \<Longrightarrow> item0 (score (snd p)) = Inr (fneg (fst p))" by auto
  have key: "fst p \<noteq> NaN" if "p \<in> set ps" for p
  proof -
    from that acc have "snd p \<in> set acc" by force
    with nonan sc[OF that] have "fneg (fst p) \<noteq> NaN" by auto
    then show ?thesis by (simp add: fneg_NaN_iff)
  qed
  then have srt: "list_sort wn ps = sort_key ?f ps"
    by (auto simp: list_sort_def list_ex_iff)
  obtain j where j: "py_take bs (sort_key ?f ps) = take j (sort_key ?f ps)"
    using py_take_is_take by blast
  define t where "t = take j (sort_key ?f ps)"
  have lt: "l = map snd t" by (simp add: l srt j t_def)
  have sub: "set t \<subseteq> set ps"
    unfolding t_def using set_take_subset[of j "sort_key ?f ps"] by simp
  have "sorted (map ?f (sort_key ?f ps))" by (rule sorted_sort_key)
  then have "sorted (take j (map ?f (sort_key ?f ps)))" by (rule sorted_wrt_take)
  then have "sorted_wrt (\<lambda>p q. ord_key (fst p) \<le> ord_key (fst q)) t"
    by (simp add: t_def take_map sorted_wrt_map)
  then have "sorted_wrt (\<lambda>p q. fle (fneg (fst q)) (fneg (fst p))) t"
    by (rule sorted_wrt_mono_rel[rotated]) (use sub key in \<open>auto intro: fle_fneg\<close>)
  then have 2: "sorted_wrt (\<lambda>x y. fle y x) (map (\<lambda>p. fneg (fst p)) t)"
    by (simp add: sorted_wrt_map)
  have 1: "map (\<lambda>s. item0 (score s)) l = map Inr (map (\<lambda>p. fneg (fst p)) t)"
    using sub sc by (auto simp: lt)
  have 3: "prefix (filter (\<lambda>s. item0 (score s) = Inr k) l)
                  (filter (\<lambda>s. item0 (score s) = Inr k) acc)" for k
  proof -
    have a: "filter (\<lambda>s. item0 (score s) = Inr k) (map snd xs) =
             map snd (filter (\<lambda>p. ?f p = ord_key (fneg k)) xs)" if "set xs \<subseteq> set ps" for xs
    proof -
      have "fneg (fst p) = k \<longleftrightarrow> fst p = fneg k" for p :: "pyfloat \<times> 'a state_scheme"
        by (metis fneg_fneg)
      then have "filter ((\<lambda>s. item0 (score s) = Inr k) \<circ> snd) xs =
                 filter (\<lambda>p. ?f p = ord_key (fneg k)) xs"
        using that sc by (intro filter_cong) (auto simp: ord_key_inj)
      then show ?thesis by (simp add: filter_map)
    qed
    have "prefix t (sort_key ?f ps)" unfolding t_def by (rule take_is_prefix)
    then have "prefix (filter (\<lambda>p. ?f p = ord_key (fneg k)) t)
                      (filter (\<lambda>p. ?f p = ord_key (fneg k)) (sort_key ?f ps))"
      by (rule filter_mono_prefix)
    then have "prefix (filter (\<lambda>p. ?f p = ord_key (fneg k)) t)
                      (filter (\<lambda>p. ?f p = ord_key (fneg k)) ps)"
      by (simp add: sort_key_stable)
    then have "prefix (map snd (filter (\<lambda>p. ?f p = ord_key (fneg k)) t))
                      (map snd (filter (\<lambda>p. ?f p = ord_key (fneg k)) ps))"
      by (rule map_mono_prefix)
    then show ?thesis
      using a[OF sub] a[of ps] by (simp add: lt acc)
  qed
  have "length ps = length acc"
    using acc by (metis length_map)
  then have "length (sort_key ?f ps) = length acc"
    by simp
  then have "length (py_take bs (sort_key ?f ps)) = length (py_take bs acc)"
    by (rule length_py_take_cong)
  then have 0: "length l = length (py_take bs acc)"
    by (simp add: l srt)
  from 0 1 2 3 show ?thesis by blast
qed

text \<open>
  Claim C2, as amended. Whenever \<^verbatim>\<open>search\<close> returns, the list under a batch index of
  the returned mapping comes from the finished accumulator of that batch index; and
  when no score in that accumulator is NaN, the list is as long as the slice
  \<^verbatim>\<open>[:beam_size]\<close> of the accumulator, its scores are non-increasing and, for every
  score, the states of that score in the list are the first ones of the accumulator's
  states of that score, in the accumulator's order, which is the order in which they
  were appended. This holds whatever the interpreter's sorting routine does to a list
  with a NaN key.
\<close>

theorem returned_lists_ranked:
  assumes "search eng c num_steps initial_state keep = (Inr m, eng')"
    and "map_of m b = Some l"
  shows "\<exists>acc.
           map_of (finished_states (snd (search_run eng c num_steps initial_state keep))) b = Some acc \<and>
           ((\<forall>s \<in> set acc. item0 (score s) \<noteq> Inr NaN) \<longrightarrow>
              length l = length (py_take (beam_size eng) acc) \<and>
              (\<exists>ks. map (\<lambda>s. item0 (score s)) l = map Inr ks \<and> sorted_wrt (\<lambda>x y. fle y x) ks) \<and>
              (\<forall>k. prefix (filter (\<lambda>s. item0 (score s) = Inr k) l)
                           (filter (\<lambda>s. item0 (score s) = Inr k) acc)))"
proof -
  obtain err v where run: "search_run eng c num_steps initial_state keep = (err, v)" by force
  with assms(1) have best: "best_states (sort_with_nan c) (beam_size (self v)) (finished_states v) = Inr m"
    by (auto simp: search_def split: option.splits)
  from best_states_lookup[OF best, of b] assms(2) obtain acc where
    acc: "map_of (finished_states v) b = Some acc" and
    r: "rank_states (sort_with_nan c) (beam_size (self v)) acc = Inr l"
    by (auto split: option.splits)
  have bs: "beam_size (self v) = beam_size eng"
    using search_run_config[OF run] by (rule beam_size_clear)
  have fin: "map_of (finished_states (snd (search_run eng c num_steps initial_state keep))) b =
      Some acc"
    using acc run by simp
  show ?thesis
  proof (intro exI[of _ acc] conjI impI)
    show "map_of (finished_states (snd (search_run eng c num_steps initial_state keep))) b =
      Some acc" by (rule fin)
  next
    assume nonan: "\<forall>s \<in> set acc. item0 (score s) \<noteq> Inr NaN"
    from rank_states_sorted_stable[OF r nonan]
    show "length l = length (py_take (beam_size eng) acc)" by (simp add: bs)
  next
    assume nonan: "\<forall>s \<in> set acc. item0 (score s) \<noteq> Inr NaN"
    from rank_states_sorted_stable[OF r nonan]
    show "\<exists>ks. map (\<lambda>s. item0 (score s)) l = map Inr ks \<and> sorted_wrt (\<lambda>x y. fle y x) ks"
      by (elim conjE)
  next
    assume nonan: "\<forall>s \<in> set acc. item0 (score s) \<noteq> Inr NaN"
    from rank_states_sorted_stable[OF r nonan]
    show "\<forall>k. prefix (filter (\<lambda>s. item0 (score s) = Inr k) l)
                     (filter (\<lambda>s. item0 (score s) = Inr k) acc)"
      by (elim conjE)
  qed
qed

lemma ex_search_3:
  "search (BeamSearch_init 3 None None False)
     (fixed_scores [Finite 1, Finite 3, Finite 1, Finite 2]) 1 (start [0]) True =
    (Inr [(0, [\<lparr>batch_indices = [0], score = [Finite 3], action_history = [[1]]\<rparr>,
               \<lparr>batch_indices = [0], score = [Finite 2], action_history = [[3]]\<rparr>,
               \<lparr>batch_indices = [0], score = [Finite 1], action_history = [[0]]\<rparr>])],
     BeamSearch_init 3 None None False)"
  by (simp add: ex_defs enumerate_eq_zip)

lemma ex_run_3:
  "finished_states (snd (search_run (BeamSearch_init 3 None None False)
     (fixed_scores [Finite 1, Finite 3, Finite 1, Finite 2]) 1 (start [0]) True)) =
    [(0, [\<lparr>batch_indices = [0], score = [Finite 1], action_history = [[0]]\<rparr>,
          \<lparr>batch_indices = [0], score = [Finite 3], action_history = [[1]]\<rparr>,
          \<lparr>batch_indices = [0], score = [Finite 1], action_history = [[2]]\<rparr>,
          \<lparr>batch_indices = [0], score = [Finite 2], action_history = [[3]]\<rparr>])]"
  by (simp add: ex_defs enumerate_eq_zip)

theorem returned_lists_ranked_witness:
  "search (BeamSearch_init 3 None None False)
     (fixed_scores [Finite 1, Finite 3, Finite 1, Finite 2]) 1 (start [0]) True =
    (Inr [(0, [\<lparr>batch_indices = [0], score = [Finite 3], action_history = [[1]]\<rparr>,
               \<lparr>batch_indices = [0], score = [Finite 2], action_history = [[3]]\<rparr>,
               \<lparr>batch_indices = [0], score = [Finite 1], action_history = [[0]]\<rparr>])],
     BeamSearch_init 3 None None False) \<and>
   length [\<lparr>batch_indices = [0], score = [Finite 3], action_history = [[1::int]]\<rparr>,
           \<lparr>batch_indices = [0], score = [Finite 2], action_history = [[3]]\<rparr>,
           \<lparr>batch_indices = [0], score = [Finite 1], action_history = [[0]]\<rparr>] =
     length (py_take 3
          [\<lparr>batch_indices = [0], score = [Finite 1], action_history = [[0::int]]\<rparr>,
           \<lparr>batch_indices = [0], score = [Finite 3], action_history = [[1]]\<rparr>,
           \<lparr>batch_indices = [0], score = [Finite 1], action_history = [[2]]\<rparr>,
           \<lparr>batch_indices = [0], score = [Finite 2], action_history = [[3]]\<rparr>]) \<and>
   (\<exists>ks. map (\<lambda>s. item0 (score s))
            [\<lparr>batch_indices = [0], score = [Finite 3], action_history = [[1::int]]\<rparr>,
             \<lparr>batch_indices = [0], score = [Finite 2], action_history = [[3]]\<rparr>,
             \<lparr>batch_indices = [0], score = [Finite 1], action_history = [[0]]\<rparr>] = map Inr ks \<and>
          sorted_wrt (\<lambda>x y. fle y x) ks) \<and>
   (\<forall>k. prefix
      (filter (\<lambda>s. item0 (score s) = Inr k)
         [\<lparr>batch_indices = [0], score = [Finite 3], action_history = [[1::int]]\<rparr>,
          \<lparr>batch_indices = [0], score = [Finite 2], action_history = [[3]]\<rparr>,
          \<lparr>batch_indices = [0], score = [Finite 1], action_history = [[0]]\<rparr>])
      (filter (\<lambda>s. item0 (score s) = Inr k)
         [\<lparr>batch_indices = [0], score = [Finite 1], action_history = [[0]]\<rparr>,
          \<lparr>batch_indices = [0], score = [Finite 3], action_history = [[1]]\<rparr>,
          \<lparr>batch_indices = [0], score = [Finite 1], action_history = [[2]]\<rparr>,
          \<lparr>batch_indices = [0], score = [Finite 2], action_history = [[3]]\<rparr>]))"
proof -
  let ?l = "[\<lparr>batch_indices = [0], score = [Finite 3], action_history = [[1::int]]\<rparr>,
             \<lparr>batch_indices = [0], score = [Finite 2], action_history = [[3]]\<rparr>,
             \<lparr>batch_indices = [0], score = [Finite 1], action_history = [[0]]\<rparr>]"
  let ?acc = "[\<lparr>batch_indices = [0], score = [Finite 1], action_history = [[0::int]]\<rparr>,
          \<lparr>batch_indices = [0], score = [Finite 3], action_history = [[1]]\<rparr>,
          \<lparr>batch_indices = [0], score = [Finite 1], action_history = [[2]]\<rparr>,
          \<lparr>batch_indices = [0], score = [Finite 2], action_history = [[3]]\<rparr>]"
  have lk: "map_of [(0::int, ?l)] 0 = Some ?l" by simp
  have bs: "beam_size (BeamSearch_init 3 None None False) = 3"
    by (simp add: BeamSearch_init_def)
  have nonan: "\<forall>s \<in> set ?acc. item0 (score s) \<noteq> Inr NaN"
    by (simp add: item0_def)
  from returned_lists_ranked[OF ex_search_3 lk] obtain acc where
    acc: "map_of (finished_states (snd (search_run (BeamSearch_init 3 None None False)
       (fixed_scores [Finite 1, Finite 3, Finite 1, Finite 2]) 1 (start [0]) True))) 0 = Some acc"
    and concl: "(\<forall>s \<in> set acc. item0 (score s) \<noteq> Inr NaN) \<longrightarrow>
              length ?l = length (py_take (beam_size (BeamSearch_init 3 None None False)) acc) \<and>
              (\<exists>ks. map (\<lambda>s. item0 (score s)) ?l = map Inr ks \<and> sorted_wrt (\<lambda>x y. fle y x) ks) \<and>
              (\<forall>k. prefix (filter (\<lambda>s. item0 (score s) = Inr k) ?l)
                           (filter (\<lambda>s. item0 (score s) = Inr k) acc))"
    by blast
  from acc have "acc = ?acc" by (simp only: ex_run_3 map_of.simps fst_conv snd_conv if_True fun_upd_same option.inject)
  with concl nonan bs ex_search_3 show ?thesis by (simp only:) blast
qed

text \<open>
  Claim C2 as stated fails when a score is NaN: every comparison of neighbouring keys
  of \<^verbatim>\<open>[-1.0, nan, -3.0, -2.0]\<close> by \<^verbatim>\<open><\<close> is false, so \<^verbatim>\<open>list.sort\<close> takes the
  whole list for one non-descending run and leaves it as it is, and the state of
  score 3 is returned after the state of score 1.
\<close>

theorem nan_score_counterexample:
  "search (BeamSearch_init 4 None None False)
     (fixed_scores [Finite 1, NaN, Finite 3, Finite 2]) 1 (start [0]) True =
    (Inr [(0, [\<lparr>batch_indices = [0], score = [Finite 1], action_history = [[0]]\<rparr>,
               \<lparr>batch_indices = [0], score = [NaN], action_history = [[1]]\<rparr>,
               \<lparr>batch_indices = [0], score = [Finite 3], action_history = [[2]]\<rparr>,
               \<lparr>batch_indices = [0], score = [Finite 2], action_history = [[3]]\<rparr>])],
     BeamSearch_init 4 None None False) \<and>
   flt (Finite 1) (Finite 3) \<and>
   \<not> sorted_wrt (\<lambda>x y. fle y x) [Finite 1, NaN, Finite 3, Finite 2]"
  by (simp add: ex_defs enumerate_eq_zip short_list_sort_def count_run_def flt_def fle_def)

subsection \<open>Appending to a \<^verbatim>\<open>defaultdict\<close> groups by key\<close>

lemma set_first_seen: "set (first_seen xs) = set xs"
  by (induction xs) auto

lemma distinct_first_seen: "distinct (first_seen xs)"
  by (induction xs) (auto simp: distinct_removeAll)

lemma first_seen_snoc:
  "first_seen (xs @ [x]) = (if x \<in> set xs then first_seen xs else first_seen xs @ [x])"
  by (induction xs) (auto simp: set_first_seen)

lemma dd_append_tabulate:
  assumes "distinct ks"
  shows "dd_append (map (\<lambda>k. (k, F k)) ks) k v =
           (if k \<in> set ks then map (\<lambda>k'. (k', if k' = k then F k @ [v] else F k')) ks
            else map (\<lambda>k. (k, F k)) ks @ [(k, [v])])"
  using assms by (induction ks) auto

lemma fold_dd_append_groups:
  "fold (\<lambda>x d. dd_append d (f x) x) xs [] =
     map (\<lambda>k. (k, filter (\<lambda>x. f x = k) xs)) (first_seen (map f xs))"
proof (induction xs rule: rev_induct)
  case Nil
  then show ?case by simp
next
  case (snoc x xs)
  let ?ks = "first_seen (map f xs)"
  have "fold (\<lambda>x d. dd_append d (f x) x) (xs @ [x]) [] =
        dd_append (map (\<lambda>k. (k, filter (\<lambda>y. f y = k) xs)) ?ks) (f x) x"
    by (simp add: snoc.IH)
  also have "\<dots> = map (\<lambda>k. (k, filter (\<lambda>y. f y = k) (xs @ [x]))) (first_seen (map f (xs @ [x])))"
    by (subst dd_append_tabulate[OF distinct_first_seen])
       (auto simp: first_seen_snoc set_first_seen filter_empty_conv image_iff)
  finally show ?case .
qed

lemma dd_append_lift:
  "inj g \<Longrightarrow> map (\<lambda>(b, ss). (g b, ss)) (dd_append d b s) =
     dd_append (map (\<lambda>(b, ss). (g b, ss)) d) (g b) s"
  by (induction d) (auto simp: inj_eq)

lemma consume_next_states:
  "consume fin lk cands F N = Inr (F', N') \<Longrightarrow>
   map (\<lambda>(b, ss). (Inr b, ss)) N' =
     fold (\<lambda>s d. dd_append d (batch_key s) s) (unfinished fin cands)
       (map (\<lambda>(b, ss). (Inr b, ss)) N)"
proof (induction cands arbitrary: F N)
  case Nil
  then show ?case by (simp add: unfinished_def)
next
  case (Cons s cands)
  from Cons.prems obtain b fl where b: "item0 (batch_indices s) = Inr b" and fl: "fin s = Inr fl"
    by (auto split: sum.splits)
  show ?case
  proof (cases fl)
    case True
    with Cons.prems b fl have "consume fin lk cands (dd_append F b s) N = Inr (F', N')" by simp
    from Cons.IH[OF this] True fl show ?thesis by (simp add: unfinished_def)
  next
    case False
    with Cons.prems b fl have
      "consume fin lk cands (if lk then dd_append F b s else F) (dd_append N b s) = Inr (F', N')"
      by simp
    from Cons.IH[OF this] False fl b show ?thesis
      by (simp add: unfinished_def batch_key_def dd_append_lift[where g = Inr])
  qed
qed

lemma consume_by_batch:
  assumes "consume fin lk cands F [] = Inr (F', N')"
  shows "map snd N' = by_batch (unfinished fin cands)"
proof -
  from consume_next_states[OF assms] have
    "map (\<lambda>(b, ss). (Inr b, ss)) N' =
       map (\<lambda>k. (k, filter (\<lambda>s. batch_key s = k) (unfinished fin cands)))
         (first_seen (map batch_key (unfinished fin cands)))"
    by (simp add: fold_dd_append_groups)
  then have "map snd (map (\<lambda>(b, ss). (Inr b :: error + int, ss)) N') = by_batch (unfinished fin cands)"
    by (simp add: by_batch_def comp_def)
  then show ?thesis by (simp add: comp_def case_prod_unfold)
qed

lemma beam_entries_map: "beam_entries ss = Inr es \<Longrightarrow> map Inr es = map beam_entry ss"
  by (induction ss arbitrary: es) (auto split: sum.splits)

lemma prune_result:
  "prune bs N sts bm = (None, sts', bm') \<Longrightarrow>
   sts' = sts @ concat (map (py_take bs) (map snd N)) \<and>
   (case bm of
      None \<Rightarrow> bm' = None
    | Some lg \<Rightarrow> \<exists>es. bm' = Some (lg @ es) \<and> map (map Inr) es = map (map beam_entry) (map snd N))"
proof (induction bs N sts bm arbitrary: sts' bm' rule: prune.induct)
  case (1 bs sts bm)
  then show ?case by (auto split: option.splits)
next
  case (2 bs batch_index batch_states rest sts bm)
  show ?case
  proof (cases bm)
    case None
    with "2.prems" have "prune bs rest (sts @ py_take bs batch_states) None = (None, sts', bm')"
      by (simp add: Let_def)
    from "2.IH"(1)[OF refl None this] None show ?thesis by simp
  next
    case (Some lg)
    with "2.prems" obtain es where es: "beam_entries batch_states = Inr es"
      and rec: "prune bs rest (sts @ py_take bs batch_states) (Some (lg @ [es])) = (None, sts', bm')"
      by (auto simp: Let_def split: sum.splits)
    from "2.IH"(2)[OF refl Some es rec] obtain es' where
      "sts' = (sts @ py_take bs batch_states) @ concat (map (py_take bs) (map snd rest))"
      "bm' = Some ((lg @ [es]) @ es')" "map (map Inr) es' = map (map beam_entry) (map snd rest)"
      by auto
    with Some beam_entries_map[OF es] show ?thesis by auto
  qed
qed

lemma loop_body_success:
  assumes "loop_body c n k v = (None, v')"
  shows "\<exists>a cands.
     take_step c (combine_states c (states v)) (per_node_beam_size (self v)) a = Inr cands \<and>
     calls v' = calls v @ [(combine_states c (states v), per_node_beam_size (self v), a)] \<and>
     states v' = concat (map (py_take (beam_size (self v)))
                   (by_batch (unfinished (is_finished c) cands))) \<and>
     (case beams (self v) of
        None \<Rightarrow> beams (self v') = None
      | Some lg \<Rightarrow> \<exists>es. beams (self v') = Some (lg @ es) \<and>
          map (map Inr) es = map (map beam_entry) (by_batch (unfinished (is_finished c) cands)))"
proof -
  let ?g = "combine_states c (states v)"
  from assms obtain a where a: "allowed_actions_for (self v) ?g = Inr a"
    by (auto simp: loop_body_def Let_def split: sum.splits)
  from assms a obtain cands where
    cands: "take_step c ?g (per_node_beam_size (self v)) a = Inr cands"
    by (auto simp: loop_body_def Let_def split: sum.splits)
  from assms a cands obtain F' N' where
    cons: "consume (is_finished c) (step_num v = n \<and> k) cands (finished_states v) [] = Inr (F', N')"
    by (auto simp: loop_body_def Let_def split: sum.splits)
  obtain e sts bm where pr: "prune (beam_size (self v)) N' [] (beams (self v)) = (e, sts, bm)"
    by (metis prod_cases3)
  from assms a cands cons pr have e: "e = None"
    and v': "v' = v\<lparr>calls := calls v @ [(?g, per_node_beam_size (self v), a)],
                    finished_states := F', states := sts, self := (self v)\<lparr>beams := bm\<rparr>\<rparr>"
    by (auto simp: loop_body_def Let_def)
  from prune_result[OF pr[unfolded e]] consume_by_batch[OF cons] cands v'
  show ?thesis by (auto split: option.splits)
qed

text \<open>
  Claim C8. An iteration of the loop that raises nothing makes one call to the
  transition function, with \<^verbatim>\<open>max_actions\<close> equal to the engine's
  \<^verbatim>\<open>per_node_beam_size\<close>; and the new active list is, batch index after batch index
  in the order in which the batch indices first occur among the unfinished candidates
  of that call, the first \<^verbatim>\<open>beam_size\<close> unfinished candidates of the batch index, in
  the order in which the call returned them. The beam size is the non-negative one of
  the engine's interface.
\<close>

theorem active_list_from_candidates:
  assumes "fst (loop_body c num_steps keep v) = None"
    and "0 \<le> beam_size (self v)"
  shows "\<exists>a cands.
     take_step c (combine_states c (states v)) (per_node_beam_size (self v)) a = Inr cands \<and>
     calls (snd (loop_body c num_steps keep v)) =
       calls v @ [(combine_states c (states v), per_node_beam_size (self v), a)] \<and>
     states (snd (loop_body c num_steps keep v)) =
       concat (map (take (nat (beam_size (self v))))
                 (by_batch (unfinished (is_finished c) cands)))"
proof -
  obtain v' where lb: "loop_body c num_steps keep v = (None, v')"
    using assms(1) by (cases "loop_body c num_steps keep v") auto
  from assms(2) have eq: "py_take (beam_size (self v)) = take (nat (beam_size (self v)))"
    by (auto simp: py_take_def)
  from loop_body_success[OF lb] obtain a cands where
    "take_step c (combine_states c (states v)) (per_node_beam_size (self v)) a = Inr cands"
    "calls v' = calls v @ [(combine_states c (states v), per_node_beam_size (self v), a)]"
    "states v' = concat (map (py_take (beam_size (self v)))
                   (by_batch (unfinished (is_finished c) cands)))"
    by blast
  then show ?thesis unfolding eq lb by auto
qed

lemma ex_body_1:
  "loop_body (bit_tree 2) 3 True (initial_vars (BeamSearch_init 1 (Some 2) None False) (start [0, 1])) =
     (None,
      \<lparr>finished_states = [],
       states = [\<lparr>batch_indices = [0], score = [Finite (- 1)], action_history = [[0]]\<rparr>,
                 \<lparr>batch_indices = [1], score = [Finite (- 1)], action_history = [[0]]\<rparr>],
       step_num = 1,
       self = BeamSearch_init 1 (Some 2) None False,
       calls = [(start [0, 1], 2, None)]\<rparr>)"
  by (simp add: ex_defs)

theorem active_list_from_candidates_witness:
  "fst (loop_body (bit_tree 2) 3 True
      (initial_vars (BeamSearch_init 1 (Some 2) None False) (start [0, 1]))) = None \<and>
   0 \<le> beam_size (self (initial_vars (BeamSearch_init 1 (Some 2) None False) (start [0, 1]))) \<and>
   (\<exists>a cands.
     take_step (bit_tree 2) (start [0, 1]) 2 a = Inr cands \<and>
     [(start [0, 1], 2, None)] = [(start [0, 1], 2, a)] \<and>
     [\<lparr>batch_indices = [0], score = [Finite (- 1)], action_history = [[0]]\<rparr>,
      \<lparr>batch_indices = [1], score = [Finite (- 1)], action_history = [[0]]\<rparr>] =
       concat (map (take (nat 1)) (by_batch (unfinished (is_finished (bit_tree 2)) cands))))"
proof -
  let ?v = "initial_vars (BeamSearch_init 1 (Some 2) None False) (start [0, 1])"
  have a: "fst (loop_body (bit_tree 2) 3 True ?v) = None" by (simp add: ex_body_1)
  have b: "0 \<le> beam_size (self ?v)"
    by (simp add: initial_vars_def BeamSearch_init_def clear_beams_def)
  have c: "combine_states (bit_tree 2) (states ?v) = start [0, 1]"
    by (simp add: initial_vars_def bit_tree_def combine_plain_def start_def)
  have d: "per_node_beam_size (self ?v) = 2" "beam_size (self ?v) = 1" "calls ?v = []"
    by (simp_all add: initial_vars_def BeamSearch_init_def clear_beams_def)
  from active_list_from_candidates[OF a b] show ?thesis
    using a b by (simp add: c d ex_body_1)
qed

subsection \<open>The stored beams\<close>

lemma entries_of_call_Inr:
  "take_step c g p a = Inr cands \<Longrightarrow>
   entries_of_call c (g, p, a) = map (map beam_entry) (by_batch (unfinished (is_finished c) cands))"
  by (simp add: entries_of_call_def)

text \<open>
  Claim C5, as amended. When the engine keeps beam details and the loop ends normally,
  the stored beams are, for the calls of the transition function in order (one call per
  completed step), one entry per batch index that has an unfinished candidate in the
  call, the batch indices in the order of their first occurrence; the entry holds the
  (score, action history) pairs of all unfinished candidates of that batch index, in
  the order in which the call returned them.
\<close>

theorem beams_after_loop:
  assumes "fst (search_loop c num_steps keep (initial_vars eng initial_state)) = None"
    and "beams eng \<noteq> None"
  shows "\<exists>lg.
     beams (self (snd (search_loop c num_steps keep (initial_vars eng initial_state)))) = Some lg \<and>
     map (map Inr) lg =
       concat (map (entries_of_call c)
         (calls (snd (search_loop c num_steps keep (initial_vars eng initial_state))))) \<and>
     int (length (calls (snd (search_loop c num_steps keep (initial_vars eng initial_state))))) =
       step_num (snd (search_loop c num_steps keep (initial_vars eng initial_state))) - 1"
proof -
  let ?P = "\<lambda>w. \<exists>lg. beams (self w) = Some lg \<and>
     map (map Inr) lg = concat (map (entries_of_call c) (calls w)) \<and>
     int (length (calls w)) = step_num w - 1"
  obtain u where run: "search_loop c num_steps keep (initial_vars eng initial_state) = (None, u)"
    using assms(1) by (cases "search_loop c num_steps keep (initial_vars eng initial_state)") auto
  have init: "?P (initial_vars eng initial_state)"
    using assms(2) by (auto simp: initial_vars_def clear_beams_def)
  have step: "?P (w'\<lparr>step_num := step_num w + 1\<rparr>)"
    if P: "?P w" and lb: "loop_body c num_steps keep w = (None, w')" for w w'
  proof -
    from P obtain lg where lg: "beams (self w) = Some lg"
      and m: "map (map Inr) lg = concat (map (entries_of_call c) (calls w))"
      and len: "int (length (calls w)) = step_num w - 1" by blast
    from loop_body_success[OF lb] lg obtain a cands es where
      ts: "take_step c (combine_states c (states w)) (per_node_beam_size (self w)) a = Inr cands"
      and cl: "calls w' = calls w @ [(combine_states c (states w), per_node_beam_size (self w), a)]"
      and bm: "beams (self w') = Some (lg @ es)"
      and es: "map (map Inr) es = map (map beam_entry) (by_batch (unfinished (is_finished c) cands))"
      by auto
    from m es cl bm len show ?thesis
      by (simp add: entries_of_call_Inr[OF ts])
  qed
  have "(None = (None::error option) \<and> ?P u \<and> (states u = [] \<or> num_steps < step_num u)) \<or>
        (\<exists>w e. None = Some e \<and> ?P w \<and> states w \<noteq> [] \<and> step_num w \<le> num_steps \<and>
                loop_body c num_steps keep w = (Some e, u))"
    by (rule search_loop_invariant[OF run, where P = ?P, OF init]) (rule step)
  with run show ?thesis by simp
qed

lemma ex_loop_2:
  "search_loop (bit_tree 2) 1 True (initial_vars (BeamSearch_init 2 None None True) (start [0, 1])) =
     (None,
      \<lparr>finished_states =
         [(0, [\<lparr>batch_indices = [0], score = [Finite (- 1)], action_history = [[0]]\<rparr>,
               \<lparr>batch_indices = [0], score = [Finite (- 1)], action_history = [[1]]\<rparr>]),
          (1, [\<lparr>batch_indices = [1], score = [Finite (- 1)], action_history = [[0]]\<rparr>,
               \<lparr>batch_indices = [1], score = [Finite (- 1)], action_history = [[1]]\<rparr>])],
       states =
         [\<lparr>batch_indices = [0], score = [Finite (- 1)], action_history = [[0]]\<rparr>,
          \<lparr>batch_indices = [0], score = [Finite (- 1)], action_history = [[1]]\<rparr>,
          \<lparr>batch_indices = [1], score = [Finite (- 1)], action_history = [[0]]\<rparr>,
          \<lparr>batch_indices = [1], score = [Finite (- 1)], action_history = [[1]]\<rparr>],
       step_num = 2,
       self = (BeamSearch_init 2 None None True)
                \<lparr>beams := Some [[(Finite (- 1), [0]), (Finite (- 1), [1])], [(Finite (- 1), [0]), (Finite (- 1), [1])]]\<rparr>,
       calls = [(start [0, 1], 2, None)]\<rparr>)"
  by (simp add: ex_defs)

theorem beams_after_loop_witness:
  "fst (search_loop (bit_tree 2) 1 True
      (initial_vars (BeamSearch_init 2 None None True) (start [0, 1]))) = None \<and>
   beams (BeamSearch_init 2 None None True) \<noteq> None \<and>
   (\<exists>lg. Some [[(Finite (- 1), [0]), (Finite (- 1), [1])], [(Finite (- 1), [0]), (Finite (- 1), [1])]] = Some lg \<and>
      map (map Inr) lg = concat (map (entries_of_call (bit_tree 2)) [(start [0, 1], 2, None)]))"
proof -
  have a: "fst (search_loop (bit_tree 2) 1 True
      (initial_vars (BeamSearch_init 2 None None True) (start [0, 1]))) = None"
    by (simp add: ex_loop_2)
  have b: "beams (BeamSearch_init 2 None None True) \<noteq> None"
    by (simp add: BeamSearch_init_def)
  from beams_after_loop[OF a b] show ?thesis
    using a b by (simp add: ex_loop_2)
qed

text \<open>
  Claim C5 as stated fails: with the two batch indices 0 and 1 the loop completes one
  step and stores two entries, one per batch index, neither of which holds the
  candidates of both.
\<close>

theorem one_entry_per_step_counterexample:
  "fst (search_loop (bit_tree 2) 1 True
      (initial_vars (BeamSearch_init 2 None None True) (start [0, 1]))) = None \<and>
   step_num (snd (search_loop (bit_tree 2) 1 True
      (initial_vars (BeamSearch_init 2 None None True) (start [0, 1])))) = 2 \<and>
   beams (self (snd (search_loop (bit_tree 2) 1 True
      (initial_vars (BeamSearch_init 2 None None True) (start [0, 1]))))) =
     Some [[(Finite (- 1), [0]), (Finite (- 1), [1])], [(Finite (- 1), [0]), (Finite (- 1), [1])]]"
  by (simp add: ex_loop_2)

end
